theory Spec2Isabelle
  imports Main
begin

section \<open>The record store (scraper/db.py, scraper/enrich.py)\<close>

text \<open>
  The \<open>users\<close> table: one row per username, every other column nullable. The arguments of
  \<open>upsert_user\<close> are the row that the INSERT proposes (SQLite's \<open>excluded\<close>), with
  \<open>None\<close> for a parameter left at its default. A stored row adds the surrogate key
  \<open>id INTEGER PRIMARY KEY AUTOINCREMENT\<close>. The table is the list of its rows in rowid order.
\<close>

record user_fields =
  username :: string
  karma :: "int option"
  about :: "string option"
  created_at :: "string option"
  invited_by_username :: "string option"
  github_username :: "string option"
  twitter_username :: "string option"
  website :: "string option"
  scraped_at :: "string option"

record user_row = user_fields +
  row_id :: nat

text \<open>SQL \<open>COALESCE(x, y)\<close>: the first argument that is not NULL.\<close>

definition coalesce :: "'a option \<Rightarrow> 'a option \<Rightarrow> 'a option" where
  "coalesce x y = (case x of Some v \<Rightarrow> Some v | None \<Rightarrow> y)"

text \<open>
  The \<open>ON CONFLICT(username) DO UPDATE SET\<close> clause of \<open>upsert_user\<close>: every column
  becomes \<open>COALESCE(excluded.column, column)\<close>; \<open>id\<close> and \<open>username\<close> are not assigned.
\<close>

definition do_update :: "user_fields \<Rightarrow> user_row \<Rightarrow> user_row" where
  "do_update excluded r = r\<lparr>
     karma := coalesce (karma excluded) (karma r),
     about := coalesce (about excluded) (about r),
     created_at := coalesce (created_at excluded) (created_at r),
     invited_by_username := coalesce (invited_by_username excluded) (invited_by_username r),
     github_username := coalesce (github_username excluded) (github_username r),
     twitter_username := coalesce (twitter_username excluded) (twitter_username r),
     website := coalesce (website excluded) (website r),
     scraped_at := coalesce (scraped_at excluded) (scraped_at r)\<rparr>"

text \<open>AUTOINCREMENT: one more than the largest rowid of the table (no row is ever deleted).\<close>

definition next_id :: "nat list \<Rightarrow> nat" where
  "next_id ids = Suc (fold max ids 0)"

definition insert_row :: "nat \<Rightarrow> user_fields \<Rightarrow> user_row" where
  "insert_row n excluded = \<lparr>
     username = username excluded,
     karma = karma excluded,
     about = about excluded,
     created_at = created_at excluded,
     invited_by_username = invited_by_username excluded,
     github_username = github_username excluded,
     twitter_username = twitter_username excluded,
     website = website excluded,
     scraped_at = scraped_at excluded,
     row_id = n\<rparr>"

definition upsert_user :: "user_fields \<Rightarrow> user_row list \<Rightarrow> user_row list" where
  "upsert_user excluded users =
     (if username excluded \<in> set (map username users)
      then map (\<lambda>r. if username r = username excluded then do_update excluded r else r) users
      else users @ [insert_row (next_id (map row_id users)) excluded])"

text \<open>\<open>get_user\<close>: \<open>SELECT * FROM users WHERE username = ?\<close>, \<open>fetchone()\<close>.\<close>

definition get_user :: "string \<Rightarrow> user_row list \<Rightarrow> user_row option" where
  "get_user name users = find (\<lambda>r. username r = name) users"

text \<open>
  The \<open>enrichment\<close> table. \<open>save_enrichment\<close> inserts the record or, on a conflict on
  \<open>username\<close>, assigns every column from \<open>excluded\<close>. The type of \<open>other_urls\<close> is a
  parameter: \<open>enrich_user\<close> collects a list and serialises it before the record is saved.
\<close>

record 'u enrichment =
  e_username :: string
  full_name :: "string option"
  linkedin_url :: "string option"
  github_url :: "string option"
  twitter_url :: "string option"
  company :: "string option"
  title :: "string option"
  location :: "string option"
  bio :: "string option"
  other_urls :: 'u
  raw_response :: "string option"
  enriched_at :: "string option"

record 'u enrichment_row = "'u enrichment" +
  e_id :: nat

definition e_update :: "'u enrichment \<Rightarrow> 'u enrichment_row \<Rightarrow> 'u enrichment_row" where
  "e_update excluded r = r\<lparr>
     full_name := full_name excluded,
     linkedin_url := linkedin_url excluded,
     github_url := github_url excluded,
     twitter_url := twitter_url excluded,
     company := company excluded,
     title := title excluded,
     location := location excluded,
     bio := bio excluded,
     other_urls := other_urls excluded,
     raw_response := raw_response excluded,
     enriched_at := enriched_at excluded\<rparr>"

definition e_insert :: "nat \<Rightarrow> 'u enrichment \<Rightarrow> 'u enrichment_row" where
  "e_insert n excluded = \<lparr>
     e_username = e_username excluded,
     full_name = full_name excluded,
     linkedin_url = linkedin_url excluded,
     github_url = github_url excluded,
     twitter_url = twitter_url excluded,
     company = company excluded,
     title = title excluded,
     location = location excluded,
     bio = bio excluded,
     other_urls = other_urls excluded,
     raw_response = raw_response excluded,
     enriched_at = enriched_at excluded,
     e_id = n\<rparr>"

definition save_enrichment :: "'u enrichment \<Rightarrow> 'u enrichment_row list \<Rightarrow> 'u enrichment_row list" where
  "save_enrichment excluded tbl =
     (if e_username excluded \<in> set (map e_username tbl)
      then map (\<lambda>r. if e_username r = e_username excluded then e_update excluded r else r) tbl
      else tbl @ [e_insert (next_id (map e_id tbl)) excluded])"

text \<open>The stored enrichment of a username: \<open>SELECT * FROM enrichment WHERE username = ?\<close>.\<close>

definition get_enrichment :: "string \<Rightarrow> 'u enrichment_row list \<Rightarrow> 'u enrichment_row option" where
  "get_enrichment name tbl = find (\<lambda>r. e_username r = name) tbl"


section \<open>Strings as Python handles them\<close>

text \<open>
  Text is a list of characters, one \<open>char\<close> per code point below 256. The helpers follow
  the Python string methods the scraper calls.
\<close>

text \<open>\<open>s.startswith(p)\<close>.\<close>

definition starts_with :: "string \<Rightarrow> string \<Rightarrow> bool" where
  "starts_with p s = (take (length p) s = p)"

text \<open>\<open>sub in s\<close>: \<open>sub\<close> occurs in \<open>s\<close> as a contiguous run.\<close>

fun is_substr :: "string \<Rightarrow> string \<Rightarrow> bool" where
  "is_substr sub [] = (sub = [])"
| "is_substr sub (c # cs) = (starts_with sub (c # cs) \<or> is_substr sub cs)"

text \<open>\<open>str.lower()\<close> on code points below 256: A-Z and the Latin-1 capitals move by 32.\<close>

definition lower_char :: "char \<Rightarrow> char" where
  "lower_char c =
     (let n = (of_char c :: nat)
      in if (65 \<le> n \<and> n \<le> 90) \<or> (192 \<le> n \<and> n \<le> 222 \<and> n \<noteq> 215)
         then char_of (n + 32) else c)"

definition lower :: "string \<Rightarrow> string" where
  "lower s = map lower_char s"

text \<open>Whitespace (\<open>str.isspace\<close>, the class \<open>\s\<close>) and decimal digits (\<open>\d\<close>) below 256.\<close>

definition is_space :: "char \<Rightarrow> bool" where
  "is_space c =
     (let n = (of_char c :: nat)
      in (9 \<le> n \<and> n \<le> 13) \<or> (28 \<le> n \<and> n \<le> 32) \<or> n = 133 \<or> n = 160)"

definition is_digit :: "char \<Rightarrow> bool" where
  "is_digit c = (let n = (of_char c :: nat) in 48 \<le> n \<and> n \<le> 57)"

text \<open>\<open>s.strip()\<close>.\<close>

definition strip :: "string \<Rightarrow> string" where
  "strip s = rev (dropWhile is_space (rev (dropWhile is_space s)))"

text \<open>\<open>s.split(sep)[0]\<close> for a non-empty separator: the text before its first occurrence.\<close>

fun split_first :: "string \<Rightarrow> string \<Rightarrow> string" where
  "split_first sep [] = []"
| "split_first sep (c # cs) = (if starts_with sep (c # cs) then [] else c # split_first sep cs)"

text \<open>
  \<open>s.replace(old, new)\<close>: every occurrence, left to right, without overlap. With an empty
  \<open>old\<close> Python puts \<open>new\<close> before every character and at the end.
\<close>

function replace :: "string \<Rightarrow> string \<Rightarrow> string \<Rightarrow> string" where
  "replace old new s =
     (if old = [] then new @ concat (map (\<lambda>c. c # new) s)
      else if s = [] then []
      else if starts_with old s then new @ replace old new (drop (length old) s)
      else hd s # replace old new (tl s))"
  by pat_completeness auto
termination
  by (relation "measure (\<lambda>(old, new, s). length s)") auto

text \<open>\<open>sep.join(parts)\<close>.\<close>

fun join :: "string \<Rightarrow> string list \<Rightarrow> string" where
  "join sep [] = []"
| "join sep [p] = p"
| "join sep (p # q # ps) = p @ sep @ join sep (q # ps)"

text \<open>Truth value of an optional string: \<open>None\<close> and the empty string are false.\<close>

definition truthy :: "string option \<Rightarrow> bool" where
  "truthy v = (case v of None \<Rightarrow> False | Some s \<Rightarrow> s \<noteq> [])"

text \<open>\<open>v or ""\<close>.\<close>

definition or_empty :: "string option \<Rightarrow> string" where
  "or_empty v = (case v of None \<Rightarrow> [] | Some s \<Rightarrow> s)"

definition newline :: char where
  "newline = CHR 0x0A"

section \<open>Query construction and candidate merge (scraper/enrich.py)\<close>

text \<open>
  \<open>build_search_query\<close>: \<open>user\<close> is a row of the users table; the result is \<open>None\<close> where
  the function returns \<open>None\<close>.
\<close>

definition build_search_query :: "'a user_fields_scheme \<Rightarrow> string option" where
  "build_search_query user =
     (let about_text = or_empty (about user);
          parts =
            (if truthy (github_username user)
             then [''github.com/'' @ or_empty (github_username user)] else []) @
            (if truthy (twitter_username user)
             then [''@'' @ or_empty (twitter_username user)] else []) @
            (if truthy (website user) then [or_empty (website user)] else [])
      in if parts = [] \<and> length about_text < 20 then None
         else
           (let parts' =
                  (if parts = []
                   then [username user @ '' '' @ replace [newline] '' '' (take 100 about_text)]
                   else parts);
                query = join '' '' parts'
            in if length parts' = 1 \<and>
                  \<not> list_ex (\<lambda>x. is_substr x (lower query)) [''github'', ''twitter'', ''@'']
               then Some (query @ '' software engineer developer'')
               else Some query))"

text \<open>One ranked candidate of the people search: \<open>result.url\<close> and \<open>result.title\<close>.\<close>

record result =
  r_url :: string
  r_title :: "string option"

text \<open>The body of the loop over \<open>results.results\<close> in \<open>enrich_user\<close>.\<close>

definition merge_result :: "result \<Rightarrow> string list enrichment \<Rightarrow> string list enrichment" where
  "merge_result result enrichment =
     (let url = lower (r_url result);
          title_text = or_empty (r_title result)
      in if is_substr ''linkedin.com/in/'' url \<and> \<not> truthy (linkedin_url enrichment) then
           (let e1 = enrichment\<lparr>linkedin_url := Some (r_url result)\<rparr>
            in if is_substr '' - '' title_text \<and> \<not> truthy (full_name e1)
               then e1\<lparr>full_name := Some (strip (split_first '' - '' title_text))\<rparr>
               else e1)
         else if is_substr ''github.com/'' url \<and> \<not> truthy (github_url enrichment) then
           enrichment\<lparr>github_url := Some (r_url result)\<rparr>
         else if (is_substr ''twitter.com/'' url \<or> is_substr ''x.com/'' url)
                 \<and> \<not> truthy (twitter_url enrichment) then
           enrichment\<lparr>twitter_url := Some (r_url result)\<rparr>
         else if r_url result \<notin> set (other_urls enrichment) then
           enrichment\<lparr>other_urls := other_urls enrichment @ [r_url result]\<rparr>
         else enrichment)"

text \<open>The record \<open>enrich_user\<close> starts from, and the loop over the candidates in rank order.\<close>

definition initial_enrichment :: "string \<Rightarrow> string \<Rightarrow> string \<Rightarrow> string list enrichment" where
  "initial_enrichment name raw now = \<lparr>
     e_username = name,
     full_name = None,
     linkedin_url = None,
     github_url = None,
     twitter_url = None,
     company = None,
     title = None,
     location = None,
     bio = None,
     other_urls = [],
     raw_response = Some raw,
     enriched_at = Some now\<rparr>"

definition merge_results :: "result list \<Rightarrow> string list enrichment \<Rightarrow> string list enrichment" where
  "merge_results results enrichment = fold merge_result results enrichment"


section \<open>The element tree of a parsed document\<close>

text \<open>
  What BeautifulSoup hands to the scraper: a tree of tags and text nodes. A tag has a name,
  its attributes as written in the markup, and its children in document order. The
  document itself is the tag \<open>[document]\<close>.
\<close>

datatype node = Text string | Tag string "(string \<times> string) list" "node list"

fun contents :: "node \<Rightarrow> node list" where
  "contents (Text s) = []"
| "contents (Tag name attrs cs) = cs"

text \<open>\<open>tag.descendants\<close>: every node below the tag, in document order.\<close>

fun descendants :: "node \<Rightarrow> node list" where
  "descendants (Text s) = []"
| "descendants (Tag name attrs cs) = concat (map (\<lambda>c. c # descendants c) cs)"

text \<open>\<open>tag.get_text()\<close>: the text nodes below the tag, concatenated.\<close>

fun get_text :: "node \<Rightarrow> string" where
  "get_text (Text s) = s"
| "get_text (Tag name attrs cs) = concat (map get_text cs)"

fun is_tag :: "string \<Rightarrow> node \<Rightarrow> bool" where
  "is_tag name (Text s) = False"
| "is_tag name (Tag name' attrs cs) = (name' = name)"

text \<open>\<open>tag.get(key)\<close>.\<close>

fun get_attr :: "node \<Rightarrow> string \<Rightarrow> string option" where
  "get_attr (Text s) key = None"
| "get_attr (Tag name attrs cs) key = map_of attrs key"

text \<open>
  The \<open>class\<close> attribute is multi-valued: BeautifulSoup stores the list of its
  whitespace-separated values, and \<open>tag.get("class", [])\<close> is the empty list without it.
\<close>

fun split_ws :: "string \<Rightarrow> string \<Rightarrow> string list" where
  "split_ws cur [] = (if cur = [] then [] else [cur])"
| "split_ws cur (c # cs) =
     (if is_space c then (if cur = [] then split_ws [] cs else cur # split_ws [] cs)
      else split_ws (cur @ [c]) cs)"

definition get_class :: "node \<Rightarrow> string list" where
  "get_class n = (case get_attr n ''class'' of None \<Rightarrow> [] | Some v \<Rightarrow> split_ws [] v)"

text \<open>
  The filters of the scraper's \<open>find\<close> and \<open>find_all\<close> calls:
  \<open>("a", href=re.compile(r"^/~"))\<close>, \<open>("ul", class_="user_tree")\<close>, \<open>("li")\<close> and
  \<open>("a", href=True)\<close>. A compiled pattern is searched in the attribute's value and a missing
  attribute never matches; a class filter matches when one of the tag's classes is equal
  to it.
\<close>

definition is_user_link :: "node \<Rightarrow> bool" where
  "is_user_link n =
     (is_tag ''a'' n \<and>
      (case get_attr n ''href'' of None \<Rightarrow> False | Some h \<Rightarrow> starts_with ''/~'' h))"

definition is_user_tree :: "node \<Rightarrow> bool" where
  "is_user_tree n = (is_tag ''ul'' n \<and> ''user_tree'' \<in> set (get_class n))"

definition has_href :: "node \<Rightarrow> bool" where
  "has_href n = (is_tag ''a'' n \<and> get_attr n ''href'' \<noteq> None)"

section \<open>Profile links (scraper/scrape.py)\<close>

definition strip_prefix :: "string \<Rightarrow> string \<Rightarrow> string option" where
  "strip_prefix p s = (if starts_with p s then Some (drop (length p) s) else None)"

definition skip_opt :: "string \<Rightarrow> string \<Rightarrow> string" where
  "skip_opt p s = (if starts_with p s then drop (length p) s else s)"

text \<open>The character classes \<open>[a-zA-Z0-9_]\<close> and \<open>[a-zA-Z0-9_-]\<close>.\<close>

definition is_word_char :: "char \<Rightarrow> bool" where
  "is_word_char c =
     (let n = (of_char c :: nat)
      in (97 \<le> n \<and> n \<le> 122) \<or> (65 \<le> n \<and> n \<le> 90) \<or> (48 \<le> n \<and> n \<le> 57) \<or> n = 95)"

definition is_gh_char :: "char \<Rightarrow> bool" where
  "is_gh_char c = (is_word_char c \<or> c = CHR ''-'')"

text \<open>
  The tail \<open>([class]+)/?$\<close> of both patterns: the longest non-empty run of the class, an
  optional slash, then the end of the string or a single newline that ends it. The result
  is group 1.
\<close>

definition match_name_tail :: "(char \<Rightarrow> bool) \<Rightarrow> string \<Rightarrow> string option" where
  "match_name_tail cls s =
     (let name = takeWhile cls s;
          rest = skip_opt ''/'' (dropWhile cls s)
      in if name \<noteq> [] \<and> (rest = [] \<or> rest = [newline]) then Some name else None)"

text \<open>\<open>re.match(r"https?://(?:www\.)?github\.com/([a-zA-Z0-9_-]+)/?$", href)\<close>, group 1.\<close>

definition gh_match :: "string \<Rightarrow> string option" where
  "gh_match href =
     (case strip_prefix ''http'' href of None \<Rightarrow> None
      | Some r1 \<Rightarrow>
     (case strip_prefix ''://'' (skip_opt ''s'' r1) of None \<Rightarrow> None
      | Some r2 \<Rightarrow>
     (case strip_prefix ''github.com/'' (skip_opt ''www.'' r2) of None \<Rightarrow> None
      | Some r3 \<Rightarrow> match_name_tail is_gh_char r3)))"

text \<open>\<open>re.match(r"https?://(?:www\.)?(?:twitter|x)\.com/([a-zA-Z0-9_]+)/?$", href)\<close>, group 1.\<close>

definition tw_match :: "string \<Rightarrow> string option" where
  "tw_match href =
     (case strip_prefix ''http'' href of None \<Rightarrow> None
      | Some r1 \<Rightarrow>
     (case strip_prefix ''://'' (skip_opt ''s'' r1) of None \<Rightarrow> None
      | Some r2 \<Rightarrow>
     (let r3 = skip_opt ''www.'' r2
      in case (case strip_prefix ''twitter'' r3 of Some r \<Rightarrow> Some r
               | None \<Rightarrow> strip_prefix ''x'' r3) of None \<Rightarrow> None
         | Some r4 \<Rightarrow>
     (case strip_prefix ''.com/'' r4 of None \<Rightarrow> None
      | Some r5 \<Rightarrow> match_name_tail is_word_char r5))))"

definition known_platforms :: "string list" where
  "known_platforms = [''github.com'', ''twitter.com'', ''x.com'', ''linkedin.com'',
     ''lobste.rs'', ''reddit.com'', ''news.ycombinator.com'']"

text \<open>
  The body of the loop over the links in \<open>parse_user_profile\<close>. \<open>data\<close> is the dictionary
  the function fills, later the arguments of \<open>upsert_user\<close>: a key not in it is \<open>None\<close>.
\<close>

definition classify_link :: "string \<Rightarrow> user_fields \<Rightarrow> user_fields" where
  "classify_link href data =
     (let d1 = (case gh_match href of Some g \<Rightarrow> data\<lparr>github_username := Some g\<rparr>
                | None \<Rightarrow> data);
          d2 = (case tw_match href of Some t \<Rightarrow> d1\<lparr>twitter_username := Some t\<rparr>
                | None \<Rightarrow> d1)
      in if starts_with ''http'' href
            \<and> \<not> list_ex (\<lambda>domain. is_substr domain href) known_platforms
         then (if website d2 = None then d2\<lparr>website := Some href\<rparr> else d2)
         else d2)"

text \<open>
  \<open>soup.find_all("a", href=True)\<close> with \<open>link["href"]\<close> of each, and the loop of
  \<open>parse_user_profile\<close> over them.
\<close>

definition link_hrefs :: "node \<Rightarrow> string list" where
  "link_hrefs soup = map (\<lambda>n. or_empty (get_attr n ''href'')) (filter has_href (descendants soup))"

definition classify_links :: "string list \<Rightarrow> user_fields \<Rightarrow> user_fields" where
  "classify_links hrefs data = fold classify_link hrefs data"

definition profile_links :: "node \<Rightarrow> user_fields \<Rightarrow> user_fields" where
  "profile_links soup data = classify_links (link_hrefs soup) data"


section \<open>Tree reconstruction (scraper/parse_tree.py)\<close>

text \<open>The dictionary \<open>parse_li\<close> appends for one entry.\<close>

record tree_user =
  t_username :: string
  t_karma :: int
  t_invited_by_username :: "string option"
  t_is_inactive :: bool

datatype error = KeyError string

text \<open>\<open>link.get("name") or link["href"].replace("/~", "")\<close>; a subscript of a missing key raises.\<close>

definition link_username :: "node \<Rightarrow> error + string" where
  "link_username link =
     (if truthy (get_attr link ''name'') then Inr (or_empty (get_attr link ''name''))
      else (case get_attr link ''href'' of
              None \<Rightarrow> Inl (KeyError ''href'')
            | Some h \<Rightarrow> Inr (replace ''/~'' [] h)))"

text \<open>
  The pattern \<open>username\s*\((\d+)\)\<close> with the username escaped, tried at the start of
  \<open>s\<close>: the username, any whitespace, an opening parenthesis, the longest non-empty run of
  digits and a closing parenthesis. The result is group 1.
\<close>

definition match_karma :: "string \<Rightarrow> string \<Rightarrow> string option" where
  "match_karma name s =
     (case strip_prefix name s of None \<Rightarrow> None
      | Some r1 \<Rightarrow>
     (case strip_prefix ''('' (dropWhile is_space r1) of None \<Rightarrow> None
      | Some r2 \<Rightarrow>
     (let digits = takeWhile is_digit r2
      in if digits \<noteq> [] \<and> starts_with '')'' (dropWhile is_digit r2) then Some digits
         else None)))"

text \<open>\<open>re.search\<close>: the leftmost position where the pattern matches.\<close>

fun search_karma :: "string \<Rightarrow> string \<Rightarrow> string option" where
  "search_karma name [] = match_karma name []"
| "search_karma name (c # cs) =
     (case match_karma name (c # cs) of Some d \<Rightarrow> Some d | None \<Rightarrow> search_karma name cs)"

text \<open>
  \<open>int(digits)\<close> on a run of decimal digits. The interpreter's bound on the length of the
  digit string is not part of the model.
\<close>

definition int_of_digits :: "string \<Rightarrow> int" where
  "int_of_digits ds = foldl (\<lambda>a c. 10 * a + (int (of_char c) - 48)) 0 ds"

definition entry_karma :: "string \<Rightarrow> string \<Rightarrow> int" where
  "entry_karma name li_text =
     (case search_karma name li_text of Some d \<Rightarrow> int_of_digits d | None \<Rightarrow> 0)"

text \<open>
  The two lookups of the user link in \<open>parse_li\<close>: among the children of the entry, then
  among all its descendants.
\<close>

definition find_link :: "node \<Rightarrow> node option" where
  "find_link li =
     (case find is_user_link (contents li) of
        Some link \<Rightarrow> Some link
      | None \<Rightarrow> find is_user_link (descendants li))"

definition find_nested_ul :: "node \<Rightarrow> node option" where
  "find_nested_ul li = find is_user_tree (contents li)"

definition find_all_li :: "node \<Rightarrow> node list" where
  "find_all_li ul = filter (is_tag ''li'') (contents ul)"

text \<open>
  A \<open>for\<close> loop whose body may raise: the state is threaded through the items, and an
  error of one item ends the loop with that error.
\<close>

definition for_each :: "'a list \<Rightarrow> ('a \<Rightarrow> 's \<Rightarrow> error + 's) \<Rightarrow> 's \<Rightarrow> error + 's" where
  "for_each xs body s0 =
     fold (\<lambda>x acc. case acc of Inl e \<Rightarrow> Inl e | Inr s \<Rightarrow> body x s) xs (Inr s0)"

text \<open>
  \<open>parse_li\<close>: the list \<open>users\<close> of the enclosing function is passed in and returned with
  the entries appended. The recursion follows the nesting of the document; the
  interpreter's recursion limit is not part of the model.
\<close>

function parse_li :: "node \<Rightarrow> string option \<Rightarrow> tree_user list \<Rightarrow> error + tree_user list" where
  "parse_li li_element parent_username users =
     (case find_link li_element of
        None \<Rightarrow> Inr users
      | Some link \<Rightarrow>
     (case link_username link of
        Inl e \<Rightarrow> Inl e
      | Inr name \<Rightarrow>
          (let users1 = users @ [\<lparr>
                 t_username = name,
                 t_karma = entry_karma name (get_text li_element),
                 t_invited_by_username = parent_username,
                 t_is_inactive = (''inactive_user'' \<in> set (get_class link))\<rparr>]
           in case find_nested_ul li_element of
                None \<Rightarrow> Inr users1
              | Some nested_ul \<Rightarrow>
                  fold (\<lambda>child_li acc. case acc of Inl e \<Rightarrow> Inl e
                          | Inr us \<Rightarrow> parse_li child_li (Some name) us)
                    (find_all_li nested_ul) (Inr users1))))"
  by pat_completeness auto
termination
proof (relation "measure (\<lambda>(li, parent, users). size li)", goal_cases)
  case 1
  show ?case by simp
next
  case (2 li parent users link name users1 nested_ul child us)
  have m1: "nested_ul \<in> set (contents li)"
    using 2 by (auto simp: find_nested_ul_def find_Some_iff)
  have m2: "child \<in> set (contents nested_ul)"
    using 2 by (auto simp: find_all_li_def)
  obtain n1 a1 cs1 where li: "li = Tag n1 a1 cs1"
    using m1 by (cases li) auto
  obtain n2 a2 cs2 where ul: "nested_ul = Tag n2 a2 cs2"
    using m2 by (cases nested_ul) auto
  have "size child \<le> size_list size cs2"
    using m2 ul by (simp add: size_list_estimation')
  moreover have "size nested_ul \<le> size_list size cs1"
    using m1 li by (simp add: size_list_estimation')
  ultimately have "size child < size li"
    using li ul by simp
  then show ?case by simp
qed

text \<open>
  \<open>parse_users_tree\<close> on the parsed document: the first \<open>ul\<close> of class \<open>user_tree\<close>, then
  \<open>parse_li\<close> on each of its \<open>li\<close> children with no parent.
\<close>

definition parse_users_tree :: "node \<Rightarrow> error + tree_user list" where
  "parse_users_tree soup =
     (case find is_user_tree (descendants soup) of
        None \<Rightarrow> Inr []
      | Some main_tree \<Rightarrow> for_each (find_all_li main_tree) (\<lambda>li. parse_li li None) [])"

text \<open>
  The loop of \<open>main\<close> over the parsed entries: each is upserted with its username, karma
  and inviter. \<open>users\<close> is the table before, the result the table after.
\<close>

definition tree_upsert_args :: "tree_user \<Rightarrow> user_fields" where
  "tree_upsert_args u = \<lparr>
     username = t_username u,
     karma = Some (t_karma u),
     about = None,
     created_at = None,
     invited_by_username = t_invited_by_username u,
     github_username = None,
     twitter_username = None,
     website = None,
     scraped_at = None\<rparr>"

definition ingest :: "tree_user list \<Rightarrow> user_row list \<Rightarrow> user_row list" where
  "ingest parsed users = fold (\<lambda>u. upsert_user (tree_upsert_args u)) parsed users"



section \<open>Invitation trees and their markup\<close>

text \<open>
  The invitation forest a users page shows, and the markup of the page as the module
  describes it: each user is an \<open>li\<close> holding
  \<open><a name="username" href="/~username">username</a> (karma)\<close>, followed by a nested
  \<open><ul class="user_tree">\<close> with the entries of the users this user invited. An inactive
  user's link carries the class \<open>inactive_user\<close>.
\<close>

datatype utree = UNode string nat bool "utree list"

function show_nat :: "nat \<Rightarrow> string" where
  "show_nat n =
     (if n < 10 then [char_of (48 + n)] else show_nat (n div 10) @ [char_of (48 + n mod 10)])"
  by pat_completeness auto
termination
  by (relation "measure id") auto

definition user_tree_ul :: "node list \<Rightarrow> node" where
  "user_tree_ul entries = Tag ''ul'' [(''class'', ''user_tree'')] entries"

fun render_entry :: "utree \<Rightarrow> node" where
  "render_entry (UNode name k inactive invitees) =
     Tag ''li'' []
       ([Tag ''a''
           ([(''name'', name), (''href'', ''/~'' @ name)] @
            (if inactive then [(''class'', ''inactive_user'')] else []))
           [Text name],
         Text ('' ('' @ show_nat k @ '')'')] @
        (if invitees = [] then [] else [user_tree_ul (map render_entry invitees)]))"

definition render_document :: "utree list \<Rightarrow> node" where
  "render_document forest = Tag ''[document]'' [] [user_tree_ul (map render_entry forest)]"

text \<open>
  The facts of a forest in pre-order: every user once, right before the users it invited,
  with the enclosing user as inviter.
\<close>

fun preorder_facts :: "string option \<Rightarrow> utree \<Rightarrow> tree_user list" where
  "preorder_facts inviter (UNode name k inactive invitees) =
     \<lparr>t_username = name, t_karma = int k, t_invited_by_username = inviter,
      t_is_inactive = inactive\<rparr>
     # concat (map (preorder_facts (Some name)) invitees)"

definition forest_facts :: "utree list \<Rightarrow> tree_user list" where
  "forest_facts forest = concat (map (preorder_facts None) forest)"

text \<open>
  Parents first: every inviter named by a fact is in \<open>seen\<close> or is the username of an
  earlier fact.
\<close>

fun parents_first :: "string list \<Rightarrow> tree_user list \<Rightarrow> bool" where
  "parents_first seen [] = True"
| "parents_first seen (u # us) =
     ((case t_invited_by_username u of None \<Rightarrow> True | Some p \<Rightarrow> p \<in> set seen)
      \<and> parents_first (t_username u # seen) us)"


section \<open>Auxiliary notions for the store\<close>

text \<open>\<open>upsert_user(username=name)\<close>: every other parameter at its default.\<close>

definition no_fields :: "string \<Rightarrow> user_fields" where
  "no_fields name = \<lparr>
     username = name,
     karma = None,
     about = None,
     created_at = None,
     invited_by_username = None,
     github_username = None,
     twitter_username = None,
     website = None,
     scraped_at = None\<rparr>"

text \<open>
  An upsert seen row by row: it first makes sure that a row of the username exists, then
  updates the rows of that username.
\<close>

definition upd :: "user_fields \<Rightarrow> user_row \<Rightarrow> user_row" where
  "upd e r = (if username r = username e then do_update e r else r)"

definition ensure :: "user_fields \<Rightarrow> user_row list \<Rightarrow> user_row list" where
  "ensure e users =
     (if username e \<in> set (map username users) then users
      else users @ [insert_row (next_id (map row_id users)) (no_fields (username e))])"

text \<open>
  What one call of \<open>parse_li\<close> appends, and the user link of a rendered entry.
\<close>

definition entry_facts :: "node \<Rightarrow> string option \<Rightarrow> tree_user list" where
  "entry_facts li parent = (case parse_li li parent [] of Inr out \<Rightarrow> out | Inl e \<Rightarrow> [])"

definition user_link :: "string \<Rightarrow> bool \<Rightarrow> node" where
  "user_link name inactive =
     Tag ''a''
       ([(''name'', name), (''href'', ''/~'' @ name)] @
        (if inactive then [(''class'', ''inactive_user'')] else []))
       [Text name]"

section \<open>Concrete inputs\<close>

text \<open>Two upserts of the same user with different karma.\<close>

definition alice_known :: user_fields where
  "alice_known = (no_fields ''alice'')\<lparr>karma := Some 3\<rparr>"

definition alice_fresh :: user_fields where
  "alice_fresh = (no_fields ''alice'')\<lparr>karma := Some 5\<rparr>"

text \<open>Two enrichment records of the same user with different fields filled in.\<close>

definition no_enrichment :: "string \<Rightarrow> string enrichment" where
  "no_enrichment name = \<lparr>
     e_username = name,
     full_name = None,
     linkedin_url = None,
     github_url = None,
     twitter_url = None,
     company = None,
     title = None,
     location = None,
     bio = None,
     other_urls = ''[]'',
     raw_response = None,
     enriched_at = None\<rparr>"

definition bob_first :: "string enrichment" where
  "bob_first = (no_enrichment ''bob'')\<lparr>
     full_name := Some ''Bob B'', linkedin_url := Some ''https://linkedin.com/in/bob'',
     company := Some ''Acme''\<rparr>"

definition bob_second :: "string enrichment" where
  "bob_second = (no_enrichment ''bob'')\<lparr>github_url := Some ''https://github.com/bob''\<rparr>"

text \<open>A user row whose only signal is the GitHub username \<open>alice\<close>.\<close>

definition alice_github_only :: user_fields where
  "alice_github_only = (no_fields ''alice99'')\<lparr>github_username := Some ''alice''\<rparr>"

text \<open>Two ranked candidates that are both LinkedIn profiles.\<close>

definition linkedin_first :: result where
  "linkedin_first = \<lparr>r_url = ''https://www.linkedin.com/in/alice-a'',
     r_title = Some ''Alice A - Engineer - Acme | LinkedIn''\<rparr>"

definition linkedin_second :: result where
  "linkedin_second = \<lparr>r_url = ''https://www.linkedin.com/in/alice-b'',
     r_title = Some ''Alice B - Designer | LinkedIn''\<rparr>"

definition alice_enrichment :: "string list enrichment" where
  "alice_enrichment = initial_enrichment ''alice'' ''[]'' ''2024-01-01T00:00:00''"

text \<open>A LinkedIn profile URL whose query string contains \<open>github.com/\<close>.\<close>

definition linkedin_with_github :: result where
  "linkedin_with_github = \<lparr>r_url = ''https://www.linkedin.com/in/bob?ref=github.com/bob'',
     r_title = None\<rparr>"

text \<open>
  A profile page with two GitHub, two Twitter/X and two other links, and its links in
  document order.
\<close>

definition profile_page :: node where
  "profile_page =
     Tag ''[document]'' []
       [Tag ''div'' [(''class'', ''profile'')]
          [Tag ''a'' [(''href'', ''https://github.com/alice'')] [Text ''GitHub''],
           Text '' '',
           Tag ''a'' [(''href'', ''https://alice.example/'')] [Text ''home''],
           Tag ''span'' []
             [Tag ''a'' [(''href'', ''https://twitter.com/al'')] [Text ''Twitter'']]],
        Tag ''div'' [(''class'', ''about'')]
          [Tag ''p'' []
             [Text ''with '',
              Tag ''a'' [(''href'', ''https://github.com/bob'')] [Text ''bob''],
              Text '' and '',
              Tag ''a'' [(''href'', ''https://x.com/bo'')] [Text ''bo'']],
           Tag ''a'' [(''href'', ''https://bob.example/'')] [Text ''more'']]]"


definition profile_hrefs :: "string list" where
  "profile_hrefs = [''https://github.com/alice'', ''https://alice.example/'',
     ''https://twitter.com/al'', ''https://github.com/bob'', ''https://x.com/bo'',
     ''https://bob.example/'']"

text \<open>
  The two-node tree \<open>root (100)\<close> with the invitee \<open>child (5)\<close>: once with links that
  carry only \<open>name\<close>, once with links that also carry \<open>href="/~username"\<close>.
\<close>

definition named_only_entry :: node where
  "named_only_entry =
     Tag ''li'' []
       [Tag ''a'' [(''name'', ''root'')] [Text ''root''], Text '' (100)'',
        Tag ''ul'' [(''class'', ''user_tree'')]
          [Tag ''li'' [] [Tag ''a'' [(''name'', ''child'')] [Text ''child''], Text '' (5)'']]]"

definition named_only_document :: node where
  "named_only_document =
     Tag ''[document]'' [] [Tag ''ul'' [(''class'', ''user_tree'')] [named_only_entry]]"

definition linked_document :: node where
  "linked_document =
     Tag ''[document]'' []
       [Tag ''ul'' [(''class'', ''user_tree'')]
          [Tag ''li'' []
             [Tag ''a'' [(''name'', ''root''), (''href'', ''/~root'')] [Text ''root''],
              Text '' (100)'',
              Tag ''ul'' [(''class'', ''user_tree'')]
                [Tag ''li'' []
                   [Tag ''a'' [(''name'', ''child''), (''href'', ''/~child'')] [Text ''child''],
                    Text '' (5)'']]]]]"

definition root_fact :: tree_user where
  "root_fact = \<lparr>t_username = ''root'', t_karma = 100, t_invited_by_username = None,
     t_is_inactive = False\<rparr>"

definition child_fact :: tree_user where
  "child_fact = \<lparr>t_username = ''child'', t_karma = 5, t_invited_by_username = Some ''root'',
     t_is_inactive = False\<rparr>"

text \<open>
  An entry with no link of its own whose nested list holds a well-formed entry, and an
  entry that holds text only.
\<close>

definition linkless_entry :: node where
  "linkless_entry =
     Tag ''li'' []
       [Tag ''ul'' [(''class'', ''user_tree'')]
          [Tag ''li'' []
             [Tag ''a'' [(''name'', ''child''), (''href'', ''/~child'')] [Text ''child''],
              Text '' (5)'']]]"

definition linkless_document :: node where
  "linkless_document =
     Tag ''[document]'' [] [Tag ''ul'' [(''class'', ''user_tree'')] [linkless_entry]]"


section \<open>Lemmas about the store\<close>

lemma find_SomeD: "find P xs = Some x \<Longrightarrow> P x \<and> x \<in> set xs"
  by (induction xs) (auto split: if_splits)

lemma coalesce_simps [simp]:
  "coalesce None y = y" "coalesce (Some v) y = Some v" "coalesce x None = x"
  by (simp_all add: coalesce_def split: option.splits)

lemma coalesce_absorb: "coalesce x (coalesce x y) = coalesce x y"
  by (cases x) simp_all

lemma coalesce_assoc: "coalesce (coalesce x y) z = coalesce x (coalesce y z)"
  by (cases x) simp_all

lemma fold_coalesce_None: "fold coalesce vs x = coalesce (fold coalesce vs None) x"
proof (induction vs arbitrary: x)
  case Nil
  show ?case by simp
next
  case (Cons v vs)
  have "fold coalesce (v # vs) x = coalesce (fold coalesce vs None) (coalesce v x)"
    using Cons.IH [of "coalesce v x"] by simp
  also have "\<dots> = coalesce (coalesce (fold coalesce vs None) v) x"
    by (simp add: coalesce_assoc)
  also have "coalesce (fold coalesce vs None) v = fold coalesce (v # vs) None"
    using Cons.IH [of v] by simp
  finally show ?case .
qed

lemma fold_coalesce_idem: "fold coalesce vs (fold coalesce vs x) = fold coalesce vs x"
proof -
  have "fold coalesce vs (fold coalesce vs x)
      = coalesce (fold coalesce vs None) (coalesce (fold coalesce vs None) x)"
    using fold_coalesce_None [of vs "fold coalesce vs x"] fold_coalesce_None [of vs x] by simp
  also have "\<dots> = fold coalesce vs x"
    using fold_coalesce_None [of vs x] by (simp add: coalesce_absorb)
  finally show ?thesis .
qed

lemma upd_username [simp]: "username (upd e r) = username r"
  by (simp add: upd_def do_update_def)

lemma upd_row_id [simp]: "row_id (upd e r) = row_id r"
  by (simp add: upd_def do_update_def)

lemma upd_more [simp]: "user_row.more (upd e r) = user_row.more r"
  by (simp add: upd_def do_update_def)

lemma fold_upd_username [simp]: "username (fold upd es r) = username r"
  by (induction es arbitrary: r) simp_all

lemma fold_upd_row_id [simp]: "row_id (fold upd es r) = row_id r"
  by (induction es arbitrary: r) simp_all

lemma fold_upd_more [simp]: "user_row.more (fold upd es r) = user_row.more r"
  by (induction es arbitrary: r) simp_all

lemma fold_upd_field:
  fixes f :: "user_row \<Rightarrow> 'a option" and g :: "user_fields \<Rightarrow> 'a option"
  assumes "\<And>e r. f (upd e r) = (if username r = username e then coalesce (g e) (f r) else f r)"
  shows "f (fold upd es r)
       = fold coalesce (map g (filter (\<lambda>e. username e = username r) es)) (f r)"
proof (induction es arbitrary: r)
  case Nil
  show ?case by simp
next
  case (Cons e es)
  show ?case
    using Cons.IH [of "upd e r"] by (auto simp: assms)
qed

lemma fold_upd_field_idem:
  fixes f :: "user_row \<Rightarrow> 'a option" and g :: "user_fields \<Rightarrow> 'a option"
  assumes "\<And>e r. f (upd e r) = (if username r = username e then coalesce (g e) (f r) else f r)"
  shows "f (fold upd es (fold upd es r)) = f (fold upd es r)"
  by (simp add: fold_upd_field [of f g, OF assms] fold_coalesce_idem)

lemma fold_upd_idem: "fold upd es (fold upd es r) = fold upd es r"
proof (rule user_row.equality)
  show "karma (fold upd es (fold upd es r)) = karma (fold upd es r)"
    by (rule fold_upd_field_idem [of karma karma]) (simp add: upd_def do_update_def)
  show "about (fold upd es (fold upd es r)) = about (fold upd es r)"
    by (rule fold_upd_field_idem [of about about]) (simp add: upd_def do_update_def)
  show "created_at (fold upd es (fold upd es r)) = created_at (fold upd es r)"
    by (rule fold_upd_field_idem [of created_at created_at]) (simp add: upd_def do_update_def)
  show "invited_by_username (fold upd es (fold upd es r)) = invited_by_username (fold upd es r)"
    by (rule fold_upd_field_idem [of invited_by_username invited_by_username])
       (simp add: upd_def do_update_def)
  show "github_username (fold upd es (fold upd es r)) = github_username (fold upd es r)"
    by (rule fold_upd_field_idem [of github_username github_username])
       (simp add: upd_def do_update_def)
  show "twitter_username (fold upd es (fold upd es r)) = twitter_username (fold upd es r)"
    by (rule fold_upd_field_idem [of twitter_username twitter_username])
       (simp add: upd_def do_update_def)
  show "website (fold upd es (fold upd es r)) = website (fold upd es r)"
    by (rule fold_upd_field_idem [of website website]) (simp add: upd_def do_update_def)
  show "scraped_at (fold upd es (fold upd es r)) = scraped_at (fold upd es r)"
    by (rule fold_upd_field_idem [of scraped_at scraped_at]) (simp add: upd_def do_update_def)
qed simp_all

lemma username_upd_comp [simp]: "username \<circ> upd e = username"
  by (rule ext) simp

lemma row_id_upd_comp [simp]: "row_id \<circ> upd e = row_id"
  by (rule ext) simp

lemma username_fold_upd_comp [simp]: "username \<circ> fold upd es = username"
  by (rule ext) simp

lemma upd_blank:
  "upd e (insert_row n (no_fields (username e))) = insert_row n e"
  by (simp add: upd_def do_update_def insert_row_def no_fields_def)

lemma upd_other: "username r \<noteq> username e \<Longrightarrow> upd e r = r"
  by (simp add: upd_def)

lemma upsert_user_as_upd: "upsert_user e users = map (upd e) (ensure e users)"
proof (cases "username e \<in> set (map username users)")
  case True
  then show ?thesis
    by (simp add: upsert_user_def ensure_def upd_def)
next
  case False
  then have "map (upd e) users = users"
    by (intro map_idI upd_other) force
  with False show ?thesis
    by (simp add: upsert_user_def ensure_def upd_blank)
qed

lemma ensure_names: "username ` set (ensure v t) = insert (username v) (username ` set t)"
  by (auto simp: ensure_def insert_row_def no_fields_def)

lemma ensure_map_upd:
  assumes "username e \<in> username ` set t"
  shows "ensure v (map (upd e) t) = map (upd e) (ensure v t)"
proof (cases "username v \<in> username ` set t")
  case True
  then show ?thesis by (simp add: ensure_def)
next
  case False
  with assms have "username v \<noteq> username e" by auto
  then have "upd e (insert_row (next_id (map row_id t)) (no_fields (username v)))
           = insert_row (next_id (map row_id t)) (no_fields (username v))"
    by (intro upd_other) (simp add: insert_row_def no_fields_def)
  with False show ?thesis
    by (simp add: ensure_def)
qed

lemma fold_ensure_map_upd:
  "username e \<in> username ` set t \<Longrightarrow>
   fold ensure vs (map (upd e) t) = map (upd e) (fold ensure vs t)"
proof (induction vs arbitrary: t)
  case Nil
  show ?case by simp
next
  case (Cons v vs)
  have "username e \<in> username ` set (ensure v t)"
    using Cons.prems by (simp add: ensure_names)
  then show ?case
    using Cons.prems by (simp add: ensure_map_upd Cons.IH)
qed

lemma fold_upsert_as_upd:
  "fold upsert_user es s = map (fold upd es) (fold ensure es s)"
proof (induction es arbitrary: s)
  case Nil
  show ?case by simp
next
  case (Cons e es)
  have present: "username e \<in> username ` set (ensure e s)"
    by (simp add: ensure_names)
  have "fold upsert_user (e # es) s = fold upsert_user es (upsert_user e s)"
    by simp
  also have "\<dots> = map (fold upd es) (fold ensure es (map (upd e) (ensure e s)))"
    by (simp only: Cons.IH upsert_user_as_upd)
  also have "\<dots> = map (fold upd es) (map (upd e) (fold ensure es (ensure e s)))"
    by (simp only: fold_ensure_map_upd [OF present])
  also have "\<dots> = map (fold upd (e # es)) (fold ensure (e # es) s)"
    by (simp add: comp_def)
  finally show ?case .
qed

lemma fold_ensure_names:
  "username ` set (fold ensure es s) = username ` set es \<union> username ` set s"
proof (induction es arbitrary: s)
  case Nil
  show ?case by simp
next
  case (Cons e es)
  show ?case
    unfolding fold_Cons comp_def Cons.IH ensure_names by auto
qed

lemma fold_ensure_present:
  "username ` set es \<subseteq> username ` set s \<Longrightarrow> fold ensure es s = s"
  by (induction es) (auto simp: ensure_def)

lemma fold_upsert_idem:
  "fold upsert_user es (fold upsert_user es s) = fold upsert_user es s"
proof -
  let ?E = "fold ensure es s"
  have "username ` set es \<subseteq> username ` set (map (fold upd es) ?E)"
    by (simp add: fold_ensure_names image_comp)
  then have "fold ensure es (map (fold upd es) ?E) = map (fold upd es) ?E"
    by (rule fold_ensure_present)
  then show ?thesis
    by (simp add: fold_upsert_as_upd fold_upd_idem)
qed

lemma find_map_same:
  "(\<And>x. P (f x) = P x) \<Longrightarrow> find P (map f xs) = map_option f (find P xs)"
  by (induction xs) simp_all



section \<open>Lemmas about queries and links\<close>

lemma lower_github_alice: "lower ''github.com/alice'' = ''github.com/alice''"
  by (simp add: lower_def lower_char_def)

lemma classify_link_github:
  "github_username (classify_link href data) =
     (case gh_match href of Some g \<Rightarrow> Some g | None \<Rightarrow> github_username data)"
  by (simp add: classify_link_def Let_def split: option.splits)

lemma classify_link_twitter:
  "twitter_username (classify_link href data) =
     (case tw_match href of Some t \<Rightarrow> Some t | None \<Rightarrow> twitter_username data)"
  by (simp add: classify_link_def Let_def split: option.splits)

lemma classify_link_website_set:
  "website data = Some w \<Longrightarrow> website (classify_link href data) = Some w"
  by (simp add: classify_link_def Let_def split: option.splits)

lemma classify_links_github_none:
  "list_all (\<lambda>h. gh_match h = None) hrefs \<Longrightarrow>
   github_username (classify_links hrefs data) = github_username data"
  unfolding classify_links_def
  by (induction hrefs arbitrary: data) (simp_all add: classify_link_github)

lemma classify_links_twitter_none:
  "list_all (\<lambda>h. tw_match h = None) hrefs \<Longrightarrow>
   twitter_username (classify_links hrefs data) = twitter_username data"
  unfolding classify_links_def
  by (induction hrefs arbitrary: data) (simp_all add: classify_link_twitter)

lemma classify_links_website_set:
  "website data = Some w \<Longrightarrow> website (classify_links hrefs data) = Some w"
  unfolding classify_links_def
  by (induction hrefs arbitrary: data) (simp_all add: classify_link_website_set)

lemma classify_links_append:
  "classify_links (xs @ ys) data = classify_links ys (classify_links xs data)"
  by (simp add: classify_links_def)

lemma classify_links_Cons:
  "classify_links (x # xs) data = classify_links xs (classify_link x data)"
  by (simp add: classify_links_def)


section \<open>Lemmas about tree reconstruction\<close>

declare parse_li.simps [simp del]

subsection \<open>The loop\<close>

lemma fold_case_sum_Inl: "fold (\<lambda>x. case_sum Inl (body x)) xs (Inl e) = Inl e"
  by (induction xs) simp_all

lemma for_each_fold: "fold (\<lambda>x. case_sum Inl (body x)) xs (Inr s) = for_each xs body s"
  by (simp add: for_each_def)

lemma for_each_Nil [simp]: "for_each [] body s = Inr s"
  by (simp add: for_each_def)

lemma for_each_Cons [simp]:
  "for_each (x # xs) body s =
     (case body x s of Inl e \<Rightarrow> Inl e | Inr s' \<Rightarrow> for_each xs body s')"
  by (cases "body x s") (simp_all add: for_each_def fold_case_sum_Inl)


lemma for_each_appends:
  "(\<And>x s. x \<in> set xs \<Longrightarrow> body x s = Inr (s @ out x)) \<Longrightarrow>
   for_each xs body s = Inr (s @ concat (map out xs))"
  by (induction xs arbitrary: s) simp_all


subsection \<open>parse_li unfolded\<close>

lemma parse_li_unfold:
  "parse_li li parent users =
     (case find_link li of
        None \<Rightarrow> Inr users
      | Some link \<Rightarrow>
     (case link_username link of
        Inl e \<Rightarrow> Inl e
      | Inr name \<Rightarrow>
          (case find_nested_ul li of
             None \<Rightarrow> Inr (users @ [\<lparr>
                 t_username = name,
                 t_karma = entry_karma name (get_text li),
                 t_invited_by_username = parent,
                 t_is_inactive = (''inactive_user'' \<in> set (get_class link))\<rparr>])
           | Some nested_ul \<Rightarrow>
               for_each (find_all_li nested_ul) (\<lambda>child. parse_li child (Some name))
                 (users @ [\<lparr>
                 t_username = name,
                 t_karma = entry_karma name (get_text li),
                 t_invited_by_username = parent,
                 t_is_inactive = (''inactive_user'' \<in> set (get_class link))\<rparr>]))))"
  by (subst parse_li.simps) (simp add: for_each_fold Let_def split: option.splits sum.splits)

lemma find_link_is_user_link: "find_link li = Some link \<Longrightarrow> is_user_link link"
  by (auto simp: find_link_def split: option.splits dest: find_SomeD)

lemma link_username_total: "is_user_link link \<Longrightarrow> \<exists>name. link_username link = Inr name"
  by (auto simp: is_user_link_def link_username_def split: option.splits)

lemma parse_li_appends: "parse_li li parent users = Inr (users @ entry_facts li parent)"
proof -
  have "\<exists>out. \<forall>us. parse_li li parent us = Inr (us @ out)"
  proof (induction li parent users rule: parse_li.induct)
    case (1 li parent users)
    show ?case
    proof (cases "find_link li")
      case None
      then have "\<forall>us. parse_li li parent us = Inr (us @ [])"
        by (simp add: parse_li_unfold)
      then show ?thesis ..
    next
      case (Some link)
      then obtain name where name: "link_username link = Inr name"
        using find_link_is_user_link link_username_total by blast
      let ?u = "\<lparr>t_username = name, t_karma = entry_karma name (get_text li),
                 t_invited_by_username = parent,
                 t_is_inactive = (''inactive_user'' \<in> set (get_class link))\<rparr>"
      show ?thesis
      proof (cases "find_nested_ul li")
        case None
        with Some name have "\<forall>us. parse_li li parent us = Inr (us @ [?u])"
          by (simp add: parse_li_unfold)
        then show ?thesis ..
      next
        case (Some ul)
        have "\<exists>out. \<forall>us. parse_li child (Some name) us = Inr (us @ out)"
          if "child \<in> set (find_all_li ul)" for child
          using "1.IH" [OF \<open>find_link li = Some link\<close> name refl Some that] .
        then obtain out where out:
          "\<And>child us. child \<in> set (find_all_li ul) \<Longrightarrow>
             parse_li child (Some name) us = Inr (us @ out child)"
          by metis
        have "for_each (find_all_li ul) (\<lambda>child. parse_li child (Some name)) s
            = Inr (s @ concat (map out (find_all_li ul)))" for s
          by (rule for_each_appends) (rule out)
        with Some \<open>find_link li = Some link\<close> name
        have "\<forall>us. parse_li li parent us = Inr (us @ (?u # concat (map out (find_all_li ul))))"
          by (simp add: parse_li_unfold)
        then show ?thesis ..
      qed
    qed
  qed
  then obtain out where out: "\<And>us. parse_li li parent us = Inr (us @ out)"
    by blast
  have "entry_facts li parent = out"
    using out [of "[]"] by (simp add: entry_facts_def)
  with out show ?thesis by simp
qed

lemma entry_facts_unfold:
  "entry_facts li parent =
     (case find_link li of
        None \<Rightarrow> []
      | Some link \<Rightarrow>
     (case link_username link of
        Inl e \<Rightarrow> []
      | Inr name \<Rightarrow>
          \<lparr>t_username = name,
           t_karma = entry_karma name (get_text li),
           t_invited_by_username = parent,
           t_is_inactive = (''inactive_user'' \<in> set (get_class link))\<rparr>
          # (case find_nested_ul li of
               None \<Rightarrow> []
             | Some nested_ul \<Rightarrow>
                 concat (map (\<lambda>child. entry_facts child (Some name)) (find_all_li nested_ul)))))"
proof -
  have loop: "for_each xs (\<lambda>child. parse_li child (Some name)) s
      = Inr (s @ concat (map (\<lambda>child. entry_facts child (Some name)) xs))" for xs name s
    by (rule for_each_appends) (rule parse_li_appends)
  show ?thesis
    unfolding entry_facts_def [of li]
    by (subst parse_li_unfold) (simp add: loop split: option.splits sum.splits)
qed

lemma parse_users_tree_facts:
  "parse_users_tree soup =
     Inr (case find is_user_tree (descendants soup) of
            None \<Rightarrow> []
          | Some main_tree \<Rightarrow> concat (map (\<lambda>li. entry_facts li None) (find_all_li main_tree)))"
proof -
  have loop: "for_each xs (\<lambda>li. parse_li li None) []
      = Inr (concat (map (\<lambda>li. entry_facts li None) xs))" for xs
    using for_each_appends [of xs "\<lambda>li. parse_li li None" "\<lambda>li. entry_facts li None" "[]"]
    by (simp add: parse_li_appends)
  show ?thesis
    by (simp add: parse_users_tree_def loop split: option.splits)
qed

subsection \<open>Parents first\<close>

lemma parents_first_append:
  "parents_first seen (xs @ ys) =
     (parents_first seen xs \<and> parents_first (rev (map t_username xs) @ seen) ys)"
  by (induction xs arbitrary: seen) simp_all

lemma parents_first_mono:
  "parents_first seen us \<Longrightarrow> set seen \<subseteq> set seen' \<Longrightarrow> parents_first seen' us"
proof (induction us arbitrary: seen seen')
  case Nil
  show ?case by simp
next
  case (Cons u us)
  have "parents_first (t_username u # seen') us"
  proof (rule Cons.IH [of "t_username u # seen"])
    show "parents_first (t_username u # seen) us"
      using Cons.prems by simp
    show "set (t_username u # seen) \<subseteq> set (t_username u # seen')"
      using Cons.prems by auto
  qed
  then show ?case
    using Cons.prems by (auto split: option.splits)
qed

lemma parents_first_concat:
  "(\<And>c seen'. c \<in> set cs \<Longrightarrow> set seen \<subseteq> set seen' \<Longrightarrow> parents_first seen' (g c)) \<Longrightarrow>
   parents_first seen (concat (map g cs))"
proof (induction cs arbitrary: seen)
  case Nil
  show ?case by simp
next
  case (Cons c cs)
  have "parents_first seen (g c)"
    using Cons.prems [of c seen] by simp
  moreover have "parents_first (rev (map t_username (g c)) @ seen) (concat (map g cs))"
  proof (rule Cons.IH)
    fix d seen'
    assume "d \<in> set cs" and "set (rev (map t_username (g c)) @ seen) \<subseteq> set seen'"
    then show "parents_first seen' (g d)"
      using Cons.prems [of d seen'] by simp
  qed
  ultimately show ?case
    by (simp add: parents_first_append)
qed

lemma entry_facts_parents_first:
  fixes users :: "tree_user list"
  shows "(case parent of None \<Rightarrow> True | Some q \<Rightarrow> q \<in> set seen) \<Longrightarrow>
         parents_first seen (entry_facts li parent)"
proof (induction li parent users arbitrary: seen rule: parse_li.induct)
  case (1 li parent users)
  show ?case
  proof (cases "find_link li")
    case None
    then show ?thesis by (simp add: entry_facts_unfold)
  next
    case link: (Some link)
    show ?thesis
    proof (cases "link_username link")
      case (Inl e)
      with link show ?thesis by (simp add: entry_facts_unfold)
    next
      case name: (Inr name)
      show ?thesis
      proof (cases "find_nested_ul li")
        case None
        with link name "1.prems" show ?thesis
          by (simp add: entry_facts_unfold)
      next
        case ul: (Some ul)
        have "parents_first (name # seen)
                (concat (map (\<lambda>child. entry_facts child (Some name)) (find_all_li ul)))"
        proof (rule parents_first_concat)
          fix c seen'
          assume c: "c \<in> set (find_all_li ul)" and sub: "set (name # seen) \<subseteq> set seen'"
          show "parents_first seen' (entry_facts c (Some name))"
            using "1.IH" [OF link name refl ul c, of seen'] sub by simp
        qed
        with link name ul "1.prems" show ?thesis
          by (simp add: entry_facts_unfold)
      qed
    qed
  qed
qed

lemma parents_first_index:
  "parents_first seen us \<Longrightarrow> i < length us \<Longrightarrow> t_invited_by_username (us ! i) = Some p \<Longrightarrow>
   p \<in> set seen \<or> (\<exists>j<i. t_username (us ! j) = p)"
proof (induction us arbitrary: seen i)
  case Nil
  then show ?case by simp
next
  case (Cons u us)
  show ?case
  proof (cases i)
    case 0
    with Cons.prems show ?thesis by simp
  next
    case (Suc k)
    have "p \<in> set (t_username u # seen) \<or> (\<exists>j<k. t_username (us ! j) = p)"
      using Cons.prems Suc by (rule_tac Cons.IH) simp_all
    then show ?thesis
    proof (elim disjE exE conjE)
      assume "p \<in> set (t_username u # seen)"
      then show ?thesis using Suc by auto
    next
      fix j assume "j < k" "t_username (us ! j) = p"
      then have "Suc j < i \<and> t_username ((u # us) ! Suc j) = p"
        using Suc by simp
      then show ?thesis by blast
    qed
  qed
qed

lemma parse_users_tree_parents_first:
  "parse_users_tree soup = Inr users \<Longrightarrow> parents_first [] users"
proof -
  have "parents_first [] (concat (map (\<lambda>li. entry_facts li None) xs))" for xs
    by (rule parents_first_concat) (simp add: entry_facts_parents_first)
  then show "parse_users_tree soup = Inr users \<Longrightarrow> parents_first [] users"
    by (auto simp: parse_users_tree_facts split: option.splits)
qed


subsection \<open>Entries without a user link\<close>

lemma parse_li_no_link: "find_link li = None \<Longrightarrow> parse_li li parent users = Inr users"
  by (simp add: parse_li_unfold)

lemma contents_descendants: "set (contents n) \<subseteq> set (descendants n)"
  by (cases n) auto

lemma descendants_trans:
  "d \<in> set (descendants n) \<Longrightarrow> set (descendants d) \<subseteq> set (descendants n)"
proof (induction n arbitrary: d)
  case (Text s)
  then show ?case by simp
next
  case (Tag name attrs cs)
  from Tag.prems obtain c where c: "c \<in> set cs" and d: "d = c \<or> d \<in> set (descendants c)"
    by auto
  have "set (descendants d) \<subseteq> set (descendants c)"
    using d Tag.IH [OF c] by auto
  then show ?case
    using c by auto
qed

lemma find_link_None_iff:
  "find_link li = None \<longleftrightarrow> (\<forall>d \<in> set (descendants li). \<not> is_user_link d)"
  using contents_descendants [of li]
  by (auto simp: find_link_def find_None_iff split: option.splits dest: find_SomeD)

lemma find_link_None_descendant:
  assumes "find_link li = None" and "d \<in> set (descendants li)"
  shows "find_link d = None"
  using assms descendants_trans [OF assms(2)]
  unfolding find_link_None_iff by blast

lemma is_user_tree_ul [simp]: "is_user_tree (user_tree_ul entries)"
  by (simp add: is_user_tree_def user_tree_ul_def get_class_def is_space_def)



subsection \<open>Decimal numerals\<close>

declare show_nat.simps [simp del]

lemma is_digit_char_of: "d < 10 \<Longrightarrow> is_digit (char_of (48 + d :: nat))"
  by (simp add: is_digit_def)

lemma digit_value_char_of: "d < 10 \<Longrightarrow> int (of_char (char_of (48 + d :: nat))) - 48 = int d"
  by simp

lemma show_nat_digits: "list_all is_digit (show_nat n)"
proof (induction n rule: show_nat.induct)
  case (1 n)
  show ?case
  proof (cases "n < 10")
    case True
    then show ?thesis
      by (subst show_nat.simps) (simp add: is_digit_char_of)
  next
    case False
    then show ?thesis
      using "1.IH" by (subst show_nat.simps) (simp add: is_digit_char_of)
  qed
qed

lemma show_nat_nonempty: "show_nat n \<noteq> []"
  by (subst show_nat.simps) simp

lemma int_of_digits_snoc:
  "int_of_digits (ds @ [c]) = 10 * int_of_digits ds + (int (of_char c) - 48)"
  by (simp add: int_of_digits_def)

lemma int_of_digits_show_nat: "int_of_digits (show_nat n) = int n"
proof (induction n rule: show_nat.induct)
  case (1 n)
  show ?case
  proof (cases "n < 10")
    case True
    then show ?thesis
      by (subst show_nat.simps) (simp add: int_of_digits_def)
  next
    case False
    have "int_of_digits (show_nat n) = 10 * int (n div 10) + int (n mod 10)"
      using False "1.IH"
      by (subst show_nat.simps) (simp add: int_of_digits_snoc)
    then show ?thesis
      by (simp add: zdiv_int zmod_int)
  qed
qed

subsection \<open>The karma of a rendered entry\<close>

lemma strip_prefix_append [simp]: "strip_prefix p (p @ r) = Some r"
  by (simp add: strip_prefix_def starts_with_def)

lemma takeWhile_digits:
  "list_all is_digit ds \<Longrightarrow> takeWhile is_digit (ds @ CHR '')'' # r) = ds"
  by (induction ds) (simp_all add: is_digit_def)

lemma dropWhile_digits:
  "list_all is_digit ds \<Longrightarrow> dropWhile is_digit (ds @ CHR '')'' # r) = CHR '')'' # r"
  by (induction ds) (simp_all add: is_digit_def)

lemma match_karma_rendered:
  "match_karma name (name @ '' ('' @ show_nat k @ '')'' @ r) = Some (show_nat k)"
proof -
  have "dropWhile is_space ('' ('' @ show_nat k @ '')'' @ r) = ''('' @ show_nat k @ '')'' @ r"
    by (simp add: is_space_def)
  then show ?thesis
    by (simp add: match_karma_def strip_prefix_def starts_with_def takeWhile_digits
          dropWhile_digits show_nat_digits show_nat_nonempty)
qed

lemma search_karma_first: "match_karma name s = Some d \<Longrightarrow> search_karma name s = Some d"
  by (cases s) simp_all

lemma entry_karma_rendered:
  "entry_karma name (name @ '' ('' @ show_nat k @ '')'' @ r) = int k"
  unfolding entry_karma_def search_karma_first [OF match_karma_rendered]
  by (simp add: int_of_digits_show_nat)

subsection \<open>Parsing a rendered entry\<close>

lemma render_entry_link:
  "render_entry (UNode name k inactive invitees) =
     Tag ''li'' []
       ([user_link name inactive, Text ('' ('' @ show_nat k @ '')'')] @
        (if invitees = [] then [] else [user_tree_ul (map render_entry invitees)]))"
  by (simp add: user_link_def)

lemma is_user_link_user_link: "is_user_link (user_link name inactive)"
  by (simp add: is_user_link_def user_link_def starts_with_def)

lemma find_link_rendered:
  "find_link (render_entry (UNode name k inactive invitees)) = Some (user_link name inactive)"
  unfolding render_entry_link
  by (simp add: find_link_def is_user_link_user_link)

lemma link_username_user_link: "link_username (user_link name inactive) = Inr name"
proof (cases "name = []")
  case True
  have "replace ''/~'' [] ''/~'' = []"
    by (simp add: starts_with_def)
  with True show ?thesis
    by (simp add: link_username_def user_link_def truthy_def)
next
  case False
  then show ?thesis
    by (simp add: link_username_def user_link_def truthy_def or_empty_def)
qed

lemma get_class_user_link:
  "(''inactive_user'' \<in> set (get_class (user_link name inactive))) = inactive"
  by (simp add: get_class_def user_link_def is_space_def)

lemma get_text_rendered:
  "\<exists>r. get_text (render_entry (UNode name k inactive invitees))
         = name @ '' ('' @ show_nat k @ '')'' @ r"
  unfolding render_entry_link
  by (simp add: user_link_def)

lemma not_user_tree_user_link: "\<not> is_user_tree (user_link name inactive)"
  by (simp add: is_user_tree_def user_link_def)

lemma find_nested_ul_rendered:
  "find_nested_ul (render_entry (UNode name k inactive invitees)) =
     (if invitees = [] then None else Some (user_tree_ul (map render_entry invitees)))"
  unfolding render_entry_link
  by (simp add: find_nested_ul_def not_user_tree_user_link) (simp add: is_user_tree_def)

lemma is_li_render_entry: "is_tag ''li'' (render_entry t)"
  by (cases t) simp

lemma find_all_li_rendered:
  "find_all_li (user_tree_ul (map render_entry ts)) = map render_entry ts"
  by (simp add: find_all_li_def user_tree_ul_def is_li_render_entry)

lemma entry_karma_get_text:
  "entry_karma name (get_text (render_entry (UNode name k inactive invitees))) = int k"
proof -
  obtain r where "get_text (render_entry (UNode name k inactive invitees))
      = name @ '' ('' @ show_nat k @ '')'' @ r"
    using get_text_rendered by blast
  then show ?thesis
    by (simp only: entry_karma_rendered)
qed

lemma entry_facts_rendered: "entry_facts (render_entry t) inviter = preorder_facts inviter t"
proof (induction t arbitrary: inviter)
  case (UNode name k inactive invitees)
  have kids: "map (\<lambda>child. entry_facts child (Some name)) (map render_entry invitees)
      = map (preorder_facts (Some name)) invitees"
    using UNode.IH by simp
  have "entry_facts (render_entry (UNode name k inactive invitees)) inviter =
      \<lparr>t_username = name, t_karma = int k, t_invited_by_username = inviter,
       t_is_inactive = inactive\<rparr>
      # (if invitees = [] then []
         else concat (map (\<lambda>child. entry_facts child (Some name)) (map render_entry invitees)))"
    by (subst entry_facts_unfold)
       (simp add: find_link_rendered link_username_user_link find_nested_ul_rendered
          entry_karma_get_text get_class_user_link find_all_li_rendered
          del: render_entry.simps map_map)
  then show ?case
    by (simp only: kids) simp
qed

lemma parse_rendered_document:
  "parse_users_tree (render_document forest) = Inr (forest_facts forest)"
proof -
  have "map (\<lambda>li. entry_facts li None) (map render_entry forest)
      = map (preorder_facts None) forest"
    by (simp add: entry_facts_rendered)
  then show ?thesis
    unfolding render_document_def
    by (simp add: parse_users_tree_facts find_all_li_rendered forest_facts_def
          del: map_map)
qed

section \<open>The claims\<close>

subsection \<open>Record store\<close>

text \<open>
  C1, as the code has it. An upsert of a username that is already stored keeps \<open>id\<close> and
  \<open>username\<close> and sets every other column to \<open>COALESCE(excluded.column, column)\<close>: a
  value the upsert provides replaces the stored one, whether or not the stored one is
  null, and a column the upsert leaves null keeps its stored value. So the last value
  provided wins, not the first.
\<close>

theorem upsert_user_existing:
  assumes "get_user (username excluded) users = Some r"
  shows "get_user (username excluded) (upsert_user excluded users) =
    Some (r\<lparr>
      karma := (case karma excluded of Some v \<Rightarrow> Some v | None \<Rightarrow> karma r),
      about := (case about excluded of Some v \<Rightarrow> Some v | None \<Rightarrow> about r),
      created_at := (case created_at excluded of Some v \<Rightarrow> Some v | None \<Rightarrow> created_at r),
      invited_by_username := (case invited_by_username excluded of Some v \<Rightarrow> Some v
                              | None \<Rightarrow> invited_by_username r),
      github_username := (case github_username excluded of Some v \<Rightarrow> Some v
                          | None \<Rightarrow> github_username r),
      twitter_username := (case twitter_username excluded of Some v \<Rightarrow> Some v
                           | None \<Rightarrow> twitter_username r),
      website := (case website excluded of Some v \<Rightarrow> Some v | None \<Rightarrow> website r),
      scraped_at := (case scraped_at excluded of Some v \<Rightarrow> Some v | None \<Rightarrow> scraped_at r)\<rparr>)"
proof -
  let ?P = "\<lambda>r. username r = username excluded"
  have r: "username r = username excluded" "r \<in> set users"
    using assms find_SomeD [of ?P users r] by (simp_all add: get_user_def)
  then have present: "username excluded \<in> set (map username users)"
    by force
  have "find ?P (map (upd excluded) users) = map_option (upd excluded) (find ?P users)"
    by (rule find_map_same) simp
  then have "get_user (username excluded) (upsert_user excluded users) = Some (upd excluded r)"
    using assms present by (simp add: get_user_def upsert_user_def upd_def [abs_def])
  then show ?thesis
    using r by (simp add: upd_def do_update_def coalesce_def)
qed

text \<open>The stored karma 3 of \<open>alice\<close> and an upsert with karma 5: the row then holds 5.\<close>

theorem upsert_user_existing_witness:
  "get_user ''alice'' (upsert_user alice_fresh [insert_row 1 alice_known]) =
     Some (insert_row 1 alice_fresh)"
proof -
  have h: "get_user (username alice_fresh) [insert_row 1 alice_known]
         = Some (insert_row 1 alice_known)"
    by (simp add: get_user_def insert_row_def alice_fresh_def alice_known_def no_fields_def)
  show ?thesis
    using upsert_user_existing [OF h]
    by (simp add: insert_row_def alice_fresh_def alice_known_def no_fields_def)
qed

text \<open>
  First-known-value-wins fails: after karma 3 is stored, an upsert with karma 5
  overwrites it.
\<close>

theorem upsert_user_first_wins_counterexample:
  "map karma (upsert_user alice_known []) = [Some 3]
   \<and> map karma (upsert_user alice_fresh (upsert_user alice_known [])) = [Some 5]"
  by (simp add: upsert_user_def insert_row_def do_update_def coalesce_def
        alice_fresh_def alice_known_def no_fields_def)

text \<open>
  C6. Saving an enrichment record for a username that already has one leaves, under that
  username, exactly the new record with the row's old \<open>id\<close>: every column comes from the new
  record and none from the previous one.
\<close>

theorem save_enrichment_overwrites:
  assumes "get_enrichment (e_username excluded) tbl = Some r"
  shows "get_enrichment (e_username excluded) (save_enrichment excluded tbl)
       = Some (e_insert (e_id r) excluded)"
proof -
  let ?P = "\<lambda>r. e_username r = e_username excluded"
  let ?f = "\<lambda>r. if e_username r = e_username excluded then e_update excluded r else r"
  have r: "e_username r = e_username excluded" "r \<in> set tbl"
    using assms find_SomeD [of ?P tbl r] by (simp_all add: get_enrichment_def)
  then have present: "e_username excluded \<in> set (map e_username tbl)"
    by force
  have "find ?P (map ?f tbl) = map_option ?f (find ?P tbl)"
    by (rule find_map_same) (simp add: e_update_def)
  then have "get_enrichment (e_username excluded) (save_enrichment excluded tbl)
           = Some (e_update excluded r)"
    using assms present r by (simp add: get_enrichment_def save_enrichment_def)
  moreover have "e_update excluded r = e_insert (e_id r) excluded"
    using r by (simp add: e_update_def e_insert_def)
  ultimately show ?thesis by simp
qed

text \<open>
  \<open>bob\<close> is enriched with a name, a LinkedIn URL and a company, then with a GitHub URL
  only: the stored record is the second one, with no name, LinkedIn URL or company.
\<close>

theorem save_enrichment_overwrites_witness:
  "get_enrichment ''bob'' (save_enrichment bob_second (save_enrichment bob_first []))
     = Some (e_insert 1 bob_second)
   \<and> full_name (e_insert 1 bob_second) = None
   \<and> linkedin_url (e_insert 1 bob_second) = None
   \<and> company (e_insert 1 bob_second) = None"
proof -
  have h: "get_enrichment (e_username bob_second) (save_enrichment bob_first [])
         = Some (e_insert 1 bob_first)"
    by (simp add: get_enrichment_def save_enrichment_def next_id_def e_insert_def
          bob_first_def bob_second_def no_enrichment_def)
  show ?thesis
    using save_enrichment_overwrites [OF h]
    by (simp add: e_insert_def bob_second_def no_enrichment_def)
qed

text \<open>
  C7. A user upsert applied twice leaves the table that applying it once leaves, for
  every table and every upsert. The same holds for the loop of \<open>main\<close> over a parsed fact
  list: ingesting the list into the table it has just been ingested into changes nothing.
\<close>

theorem upsert_user_idempotent:
  "upsert_user e (upsert_user e users) = upsert_user e users
   \<and> ingest parsed (ingest parsed users) = ingest parsed users"
proof
  show "upsert_user e (upsert_user e users) = upsert_user e users"
    using fold_upsert_idem [of "[e]" users] by simp
  have "ingest parsed s = fold upsert_user (map tree_upsert_args parsed) s" for s
    by (simp add: ingest_def fold_map comp_def)
  then show "ingest parsed (ingest parsed users) = ingest parsed users"
    by (simp add: fold_upsert_idem)
qed

theorem upsert_user_idempotent_witness:
  "upsert_user alice_fresh (upsert_user alice_fresh [insert_row 1 alice_known])
     = upsert_user alice_fresh [insert_row 1 alice_known]
   \<and> ingest [root_fact, child_fact] (ingest [root_fact, child_fact] [])
     = ingest [root_fact, child_fact] []"
  using upsert_user_idempotent [where e = alice_fresh and users = "[insert_row 1 alice_known]"]
    upsert_user_idempotent [where parsed = "[root_fact, child_fact]" and users = "[]"]
  by blast

subsection \<open>Query construction and candidate merge\<close>

text \<open>
  C3, as the code has it. A candidate whose URL matches the LinkedIn pattern while
  \<open>linkedin_url\<close> is already set is not discarded: it goes on through the rest of the
  chain. If its URL contains \<open>github.com/\<close> and \<open>github_url\<close> is unset it becomes
  \<open>github_url\<close>; else if its URL contains \<open>twitter.com/\<close> or \<open>x.com/\<close> and \<open>twitter_url\<close> is
  unset it becomes \<open>twitter_url\<close>; else it is appended to \<open>other_urls\<close> unless already
  listed there. Nothing else changes, so \<open>linkedin_url\<close> and \<open>full_name\<close> keep their values
  and the URL is afterwards \<open>github_url\<close>, \<open>twitter_url\<close> or a member of \<open>other_urls\<close>.
\<close>

theorem later_linkedin_not_dropped:
  assumes "is_substr ''linkedin.com/in/'' (lower (r_url result))"
    and "truthy (linkedin_url enrichment)"
  shows "merge_result result enrichment =
      (if is_substr ''github.com/'' (lower (r_url result)) \<and> \<not> truthy (github_url enrichment)
       then enrichment\<lparr>github_url := Some (r_url result)\<rparr>
       else if (is_substr ''twitter.com/'' (lower (r_url result))
                \<or> is_substr ''x.com/'' (lower (r_url result)))
               \<and> \<not> truthy (twitter_url enrichment)
       then enrichment\<lparr>twitter_url := Some (r_url result)\<rparr>
       else if r_url result \<notin> set (other_urls enrichment)
       then enrichment\<lparr>other_urls := other_urls enrichment @ [r_url result]\<rparr>
       else enrichment)
    \<and> linkedin_url (merge_result result enrichment) = linkedin_url enrichment
    \<and> full_name (merge_result result enrichment) = full_name enrichment
    \<and> (github_url (merge_result result enrichment) = Some (r_url result)
       \<or> twitter_url (merge_result result enrichment) = Some (r_url result)
       \<or> r_url result \<in> set (other_urls (merge_result result enrichment)))"
  using assms by (auto simp: merge_result_def Let_def)

text \<open>
  After the first LinkedIn candidate, a second plain LinkedIn URL is appended to
  \<open>other_urls\<close>, and a LinkedIn URL that contains \<open>github.com/\<close> becomes \<open>github_url\<close>.
\<close>

theorem later_linkedin_not_dropped_witness:
  "merge_result linkedin_second (merge_result linkedin_first alice_enrichment)
     = (merge_result linkedin_first alice_enrichment)
         \<lparr>other_urls := [''https://www.linkedin.com/in/alice-b'']\<rparr>
   \<and> merge_result linkedin_with_github (merge_result linkedin_first alice_enrichment)
     = (merge_result linkedin_first alice_enrichment)
         \<lparr>github_url := Some ''https://www.linkedin.com/in/bob?ref=github.com/bob''\<rparr>"
proof -
  let ?e = "merge_result linkedin_first alice_enrichment"
  have set: "truthy (linkedin_url ?e)"
    by code_simp
  have e: "\<not> truthy (github_url ?e)" "\<not> truthy (twitter_url ?e)" "other_urls ?e = []"
    by code_simp+
  have second: "is_substr ''linkedin.com/in/'' (lower (r_url linkedin_second))"
    "\<not> is_substr ''github.com/'' (lower (r_url linkedin_second))"
    "\<not> is_substr ''twitter.com/'' (lower (r_url linkedin_second))"
    "\<not> is_substr ''x.com/'' (lower (r_url linkedin_second))"
    by code_simp+
  have third: "is_substr ''linkedin.com/in/'' (lower (r_url linkedin_with_github))"
    "is_substr ''github.com/'' (lower (r_url linkedin_with_github))"
    by code_simp+
  have "merge_result linkedin_second ?e
      = ?e\<lparr>other_urls := [''https://www.linkedin.com/in/alice-b'']\<rparr>"
    using later_linkedin_not_dropped [OF second(1) set] second(2-4) e
    by (simp add: linkedin_second_def)
  moreover have "merge_result linkedin_with_github ?e
      = ?e\<lparr>github_url := Some ''https://www.linkedin.com/in/bob?ref=github.com/bob''\<rparr>"
    using later_linkedin_not_dropped [OF third(1) set] third(2) e
    by (simp add: linkedin_with_github_def)
  ultimately show ?thesis by simp
qed

text \<open>
  Two LinkedIn candidates in rank order: the first becomes \<open>linkedin_url\<close>, the second is
  appended to \<open>other_urls\<close>.
\<close>

theorem later_linkedin_counterexample:
  "linkedin_url (merge_results [linkedin_first, linkedin_second] alice_enrichment)
     = Some ''https://www.linkedin.com/in/alice-a''
   \<and> other_urls (merge_results [linkedin_first, linkedin_second] alice_enrichment)
     = [''https://www.linkedin.com/in/alice-b'']"
  by code_simp

text \<open>
  C4, as the code has it. For a user whose only signal is the GitHub username \<open>alice\<close>
  the query is exactly \<open>github.com/alice\<close>: the single term contains \<open>github\<close>, and the
  qualifier is appended only to a single term that contains none of \<open>github\<close>,
  \<open>twitter\<close> and \<open>@\<close>.
\<close>

theorem build_search_query_github_only:
  assumes "github_username user = Some ''alice''"
    and "\<not> truthy (twitter_username user)" and "\<not> truthy (website user)"
  shows "build_search_query user = Some ''github.com/alice''"
  using assms
  by (simp add: build_search_query_def truthy_def or_empty_def lower_github_alice
        starts_with_def Let_def)

theorem build_search_query_github_only_witness:
  "build_search_query alice_github_only = Some ''github.com/alice''"
proof -
  have "github_username alice_github_only = Some ''alice''"
    and "\<not> truthy (twitter_username alice_github_only)"
    and "\<not> truthy (website alice_github_only)"
    by (simp_all add: alice_github_only_def no_fields_def truthy_def)
  then show ?thesis
    by (rule build_search_query_github_only)
qed

theorem build_search_query_qualifier_counterexample:
  "build_search_query alice_github_only \<noteq> Some ''github.com/alice software engineer developer''"
  by (simp add: build_search_query_def truthy_def or_empty_def lower_github_alice
        starts_with_def Let_def alice_github_only_def no_fields_def)

subsection \<open>Profile links\<close>

text \<open>
  C5. The links of the page are classified in document order, and \<open>website\<close> keeps the
  first link that qualifies. For \<open>github_username\<close> and \<open>twitter_username\<close> the loop does
  not do what the claim says: on the page below, whose links in document order are
  \<open>github.com/alice\<close>, \<open>alice.example\<close>, \<open>twitter.com/al\<close>, \<open>github.com/bob\<close>, \<open>x.com/bo\<close> and
  \<open>bob.example\<close>, the later links overwrite both usernames, where first-match-wins gives
  \<open>alice\<close> and \<open>al\<close>.
\<close>

theorem profile_links_later_match_overwrites:
  "link_hrefs profile_page = profile_hrefs
   \<and> github_username (profile_links profile_page (no_fields ''u'')) = Some ''bob''
   \<and> twitter_username (profile_links profile_page (no_fields ''u'')) = Some ''bo''
   \<and> website (profile_links profile_page (no_fields ''u'')) = Some ''https://alice.example/''
   \<and> github_username (classify_links [''https://github.com/alice''] (no_fields ''u''))
       = Some ''alice''
   \<and> github_username
         (classify_links [''https://github.com/alice'', ''https://github.com/bob'']
            (no_fields ''u'')) = Some ''bob''"
  by code_simp

subsection \<open>Tree reconstruction\<close>

text \<open>
  C2, as the code has it. For every document in the module's format, where the link of
  each entry carries \<open>href="/~username"\<close> next to its \<open>name\<close>, the output is the fact list
  of the forest in pre-order: every entry once, with the username of the enclosing entry
  as inviter and none at the top level. The two-node example in that format yields
  \<open>root\<close> with karma 100 and no inviter, then \<open>child\<close> with karma 5 and inviter \<open>root\<close>.
\<close>

theorem parse_users_tree_rendered:
  "parse_users_tree (render_document forest) = Inr (forest_facts forest)
   \<and> render_document [UNode ''root'' 100 False [UNode ''child'' 5 False []]] = linked_document
   \<and> parse_users_tree linked_document = Inr [root_fact, child_fact]"
proof (intro conjI)
  show "parse_users_tree (render_document forest) = Inr (forest_facts forest)"
    by (rule parse_rendered_document)
  show "render_document [UNode ''root'' 100 False [UNode ''child'' 5 False []]] = linked_document"
    by code_simp
  show "parse_users_tree linked_document = Inr [root_fact, child_fact]"
    by code_simp
qed

theorem parse_users_tree_rendered_witness:
  "parse_users_tree (render_document [UNode ''root'' 100 False [UNode ''child'' 5 False []]])
     = Inr [root_fact, child_fact]"
  using parse_users_tree_rendered [of "[UNode ''root'' 100 False [UNode ''child'' 5 False []]]"]
  by (simp add: forest_facts_def root_fact_def child_fact_def)

text \<open>
  The example tree as the specification writes it, with links that carry \<open>name\<close> but no
  \<open>href\<close>: no link passes the filter \<open>href=re.compile(r"^/~")\<close> and the output is empty.
\<close>

theorem parse_users_tree_named_only_counterexample:
  "parse_users_tree named_only_document = Inr []
   \<and> parse_users_tree named_only_document \<noteq> Inr [root_fact, child_fact]"
  by code_simp



text \<open>
  C9. In the output of \<open>parse_users_tree\<close>, a fact with an inviter comes after a fact whose
  username is that inviter.
\<close>

theorem parents_precede_children:
  assumes "parse_users_tree soup = Inr users"
    and "i < length users"
    and "t_invited_by_username (users ! i) = Some p"
  shows "\<exists>j<i. t_username (users ! j) = p"
  using parents_first_index [OF parse_users_tree_parents_first [OF assms(1)] assms(2,3)]
  by simp

theorem parents_precede_children_witness:
  "parse_users_tree linked_document = Inr [root_fact, child_fact]
   \<and> (\<exists>j<1. t_username ([root_fact, child_fact] ! j) = ''root'')"
proof -
  have h1: "parse_users_tree linked_document = Inr [root_fact, child_fact]"
    by code_simp
  have h2: "(1::nat) < length [root_fact, child_fact]"
    by simp
  have h3: "t_invited_by_username ([root_fact, child_fact] ! 1) = Some ''root''"
    by (simp add: child_fact_def)
  show ?thesis
    using h1 parents_precede_children [OF h1 h2 h3] by simp
qed

text \<open>
  C10, as the code has it. The subtree of an entry is skipped when no user link occurs
  anywhere in the entry, among its children or deeper: \<open>parse_li\<close> appends nothing, and
  then no node below the entry has a user link either. An entry without a link of its own
  whose nested list holds a well-formed entry is not such an entry, because the second
  lookup goes through all descendants.
\<close>

theorem usernameless_subtree_skipped:
  assumes "find_link entry = None"
  shows "parse_li entry parent users = Inr users
    \<and> list_all (\<lambda>d. find_link d = None) (descendants entry)"
  using assms find_link_None_descendant [OF assms]
  by (simp add: parse_li_no_link list_all_iff)

text \<open>
  The entry of the example tree whose links carry no \<open>href\<close>: nothing is appended for it
  or for the entry nested in it.
\<close>

theorem usernameless_subtree_skipped_witness:
  "find_link named_only_entry = None
   \<and> parse_li named_only_entry None [] = Inr []
   \<and> list_all (\<lambda>d. find_link d = None) (descendants named_only_entry)"
proof -
  have h: "find_link named_only_entry = None"
    by code_simp
  show ?thesis
    using h usernameless_subtree_skipped [OF h] by simp
qed

text \<open>
  An entry with no link among its children and a well-formed entry of \<open>child\<close> in its
  nested list: the username \<open>child\<close>, which occurs only inside the nested list, is in the
  output, once for the outer entry and once for the nested one.
\<close>

theorem nested_link_counterexample:
  "find is_user_link (contents linkless_entry) = None
   \<and> parse_users_tree linkless_document =
       Inr [\<lparr>t_username = ''child'', t_karma = 5, t_invited_by_username = None,
              t_is_inactive = False\<rparr>,
            \<lparr>t_username = ''child'', t_karma = 5, t_invited_by_username = Some ''child'',
              t_is_inactive = False\<rparr>]"
  by code_simp

end
